theory Spec2Isabelle
  imports Complex_Main "HOL-Library.Word" "HOL-Library.Char_ord" "HOL-Library.List_Lexorder"
begin

unbundle bit_operations_syntax

section \<open>Data model\<close>

text \<open>
  The programme under verification benchmarks a perceptual hash: \<^verbatim>\<open>utils.py\<close> holds the
  fingerprint pipeline (\<^verbatim>\<open>extract_features\<close>, \<^verbatim>\<open>match_features\<close>,
  \<^verbatim>\<open>calculate_match_score\<close>, \<^verbatim>\<open>detect_matches\<close>) and \<^verbatim>\<open>detect.py\<close> the driver
  (\<^verbatim>\<open>main\<close>) that fills the table of scores and picks the hardest manipulation.

  Paths and file names are Python strings; an image is what Pillow hands out: a mode, a
  size and the pixel data. A fingerprint is the 8 by 8 bit array of
  \<^verbatim>\<open>imagehash.phash\<close> with its default \<^verbatim>\<open>hash_size=8\<close>, that is 64 bits.
\<close>

type_synonym path = string

record image =
  im_mode :: string
  im_size :: "nat \<times> nat"
  im_data :: "nat list"

type_synonym fingerprint = "64 word"

text \<open>
  \<^verbatim>\<open>extract_features\<close> accepts a Pillow image or a numpy array.
\<close>

datatype raster = Pil image | Ndarray "nat list list"

text \<open>
  The exceptions that can travel through the modelled code. In Python 3 \<^verbatim>\<open>IOError\<close> is
  an alias of \<^verbatim>\<open>OSError\<close>; \<^verbatim>\<open>FileNotFoundError\<close> and Pillow's
  \<^verbatim>\<open>UnidentifiedImageError\<close> are subclasses of it, Pillow's
  \<^verbatim>\<open>DecompressionBombError\<close> is not. So the clause
  \<^verbatim>\<open>except (IOError, FileNotFoundError)\<close> of \<^verbatim>\<open>detect_matches\<close> catches exactly the
  exceptions for which \<open>is_IOError\<close> holds.
\<close>

datatype py_exn =
    OSError
  | FileNotFoundError
  | UnidentifiedImageError
  | DecompressionBombError
  | KeyError
  | ValueError

fun is_IOError :: "py_exn \<Rightarrow> bool" where
  "is_IOError OSError = True"
| "is_IOError FileNotFoundError = True"
| "is_IOError UnidentifiedImageError = True"
| "is_IOError DecompressionBombError = False"
| "is_IOError KeyError = False"
| "is_IOError ValueError = False"

text \<open>
  Everything the code asks of the operating system and of its libraries is a field of the
  \<open>world\<close>: \<^verbatim>\<open>os.listdir\<close>, \<^verbatim>\<open>os.path.exists\<close>, \<^verbatim>\<open>Image.open\<close>,
  \<^verbatim>\<open>Image.convert('L')\<close>, \<^verbatim>\<open>Image.fromarray\<close> and \<^verbatim>\<open>imagehash.phash\<close>. The
  fields are arbitrary functions, so a result that holds for every world holds whatever the
  disk contains and whatever the hash computes.

  \<^verbatim>\<open>Image.open\<close> is lazy: it identifies the file from its header and raises when it
  cannot; the pixel data are decoded by the first operation that needs them, which in
  \<^verbatim>\<open>detect_matches\<close> is \<^verbatim>\<open>convert('L')\<close>. Both calls can therefore raise.
  \<^verbatim>\<open>phash\<close> works on the decoded grayscale image and returns a value.
\<close>

record world =
  listdir :: "path \<Rightarrow> py_exn + string list"
  path_exists :: "path \<Rightarrow> bool"
  image_open :: "path \<Rightarrow> py_exn + image"
  convert_L :: "image \<Rightarrow> py_exn + image"
  fromarray :: "nat list list \<Rightarrow> image"
  phash :: "image \<Rightarrow> fingerprint"

section \<open>Feature extraction and matching (\<^verbatim>\<open>utils.py\<close>)\<close>

text \<open>
  \<^verbatim>\<open>MANIPULATION_TYPES\<close>: the catalogue, a dictionary from letter code to name. Python
  dictionaries keep insertion order, so the model is an association list.
\<close>

definition MANIPULATION_TYPES :: "(string \<times> string) list" where
  "MANIPULATION_TYPES =
    [(''a'', ''crop_20''),
     (''b'', ''rotate_10''),
     (''c'', ''flip_h''),
     (''d'', ''brightness_1.3''),
     (''e'', ''contrast_0.7''),
     (''f'', ''gaussian_blur''),
     (''g'', ''noise_saltpepper''),
     (''h'', ''color_filter''),
     (''i'', ''watermark''),
     (''j'', ''canvas_expand''),
     (''k'', ''jpeg_compression''),
     (''l'', ''collage''),
     (''m'', ''text_obfuscation''),
     (''n'', ''invert_colors'')]"

text \<open>
  \<^verbatim>\<open>extract_features(img, method='phash')\<close> returns a pair whose second component is
  always \<^verbatim>\<open>None\<close>.
\<close>

definition extract_features :: "world \<Rightarrow> raster \<Rightarrow> string \<Rightarrow> fingerprint option \<times> unit option" where
  "extract_features w img method =
    (if method = ''phash'' then
       (let img' = (case img of Ndarray arr \<Rightarrow> fromarray w arr | Pil i \<Rightarrow> i);
            hash_value = phash w img'
        in (Some hash_value, None))
     else (None, None))"

text \<open>
  \<^verbatim>\<open>desc1 - desc2\<close> is \<^verbatim>\<open>ImageHash.__sub__\<close>: the number of positions at which the two
  bit arrays differ, a Python integer.
\<close>

definition hash_sub :: "fingerprint \<Rightarrow> fingerprint \<Rightarrow> int" where
  "hash_sub h1 h2 = int (length (filter (\<lambda>n. bit h1 n \<noteq> bit h2 n) [0..<64]))"

text \<open>
  The local class \<^verbatim>\<open>MockMatch\<close> has the single attribute \<^verbatim>\<open>distance\<close>.
\<close>

datatype MockMatch = MockMatch (distance: int)

definition match_features :: "fingerprint option \<Rightarrow> fingerprint option \<Rightarrow> string \<Rightarrow> MockMatch list" where
  "match_features desc1 desc2 method =
    (case desc1 of
       None \<Rightarrow> []
     | Some h1 \<Rightarrow>
        (case desc2 of
           None \<Rightarrow> []
         | Some h2 \<Rightarrow>
            (if method = ''phash'' then [MockMatch (hash_sub h1 h2)] else [])))"

text \<open>
  \<^verbatim>\<open>calculate_match_score(matches, method='phash', threshold=0.75)\<close>. The division is
  Python's true division on floats. For an integer distance between 0 and 64 the quotient
  \<open>(64 - d) / 64\<close> and its product with 100 are multiples of 1/16 below \<open>2 ^ 53\<close>, which
  binary floating point represents exactly, so the score is modelled as a real number.
\<close>

definition calculate_match_score :: "MockMatch list \<Rightarrow> string \<Rightarrow> real \<Rightarrow> real" where
  "calculate_match_score matches method threshold =
    (case matches of
       [] \<Rightarrow> 0
     | m # _ \<Rightarrow>
        (if method = ''phash'' then (64 - real_of_int (distance m)) / 64 * 100 else 0))"

text \<open>
  \<^verbatim>\<open>detect_matches(original_path, manipulated_path, method='phash')\<close>. Only the two
  calls of \<^verbatim>\<open>Image.open\<close> stand inside the \<^verbatim>\<open>try\<close>; an exception the clause does
  not catch, and any exception of the two conversions, leaves the function.
\<close>

definition detect_matches :: "world \<Rightarrow> path \<Rightarrow> path \<Rightarrow> string \<Rightarrow> py_exn + real" where
  "detect_matches w original_path manipulated_path method =
    (case image_open w original_path of
       Inl e \<Rightarrow> (if is_IOError e then Inr 0 else Inl e)
     | Inr img1 \<Rightarrow>
    (case image_open w manipulated_path of
       Inl e \<Rightarrow> (if is_IOError e then Inr 0 else Inl e)
     | Inr img2 \<Rightarrow>
    (case convert_L w img1 of
       Inl e \<Rightarrow> Inl e
     | Inr img1_gray \<Rightarrow>
    (case convert_L w img2 of
       Inl e \<Rightarrow> Inl e
     | Inr img2_gray \<Rightarrow>
        (let hash1 = fst (extract_features w (Pil img1_gray) method);
             hash2 = fst (extract_features w (Pil img2_gray) method);
             matches = match_features hash1 hash2 method
         in Inr (calculate_match_score matches method 0.75))))))"

section \<open>String and path helpers of the standard library\<close>

text \<open>
  \<^verbatim>\<open>str.lower\<close>, restricted to what the suffix test of the driver can see: the three
  suffixes are ASCII, and only the ASCII capitals fold onto ASCII letters occurring in them.
\<close>

definition lower_char :: "char \<Rightarrow> char" where
  "lower_char c =
    (let n = (of_char c :: nat) in if 65 \<le> n \<and> n \<le> 90 then char_of (n + 32) else c)"

definition lower :: "string \<Rightarrow> string" where
  "lower s = map lower_char s"

definition endswith :: "string \<Rightarrow> string \<Rightarrow> bool" where
  "endswith s suf = (length suf \<le> length s \<and> drop (length s - length suf) s = suf)"

text \<open>\<^verbatim>\<open>str.endswith\<close> with a tuple of suffixes.\<close>

definition endswith_any :: "string \<Rightarrow> string list \<Rightarrow> bool" where
  "endswith_any s sufs = list_ex (endswith s) sufs"

text \<open>\<^verbatim>\<open>os.path.join\<close> of two components (\<^verbatim>\<open>posixpath\<close>).\<close>

definition path_join :: "path \<Rightarrow> string \<Rightarrow> path" where
  "path_join a b =
    (if b \<noteq> [] \<and> hd b = CHR ''/'' then b
     else if a = [] \<or> last a = CHR ''/'' then a @ b
     else a @ ''/'' @ b)"

text \<open>\<^verbatim>\<open>str.rfind\<close> of one character: the last index where it occurs, or -1.\<close>

definition rfind :: "char \<Rightarrow> string \<Rightarrow> int" where
  "rfind c s =
    (case filter (\<lambda>i. s ! i = c) (rev [0..<length s]) of
       [] \<Rightarrow> - 1
     | i # _ \<Rightarrow> int i)"

text \<open>
  \<^verbatim>\<open>os.path.splitext\<close>: the extension starts at the last dot of the last component,
  unless that component has only dots before it.
\<close>

definition splitext :: "path \<Rightarrow> string \<times> string" where
  "splitext p =
    (let sepIndex = rfind CHR ''/'' p;
         dotIndex = rfind CHR ''.'' p
     in if dotIndex > sepIndex
           \<and> list_ex (\<lambda>i. p ! i \<noteq> CHR ''.'') [nat (sepIndex + 1)..<nat dotIndex]
        then (take (nat dotIndex) p, drop (nat dotIndex) p)
        else (p, []))"

section \<open>Dictionaries, columns and floats\<close>

text \<open>
  A dictionary with string keys is an association list in insertion order. Assigning to a
  key that is present keeps its place; a new key goes to the end.
\<close>

fun dict_set :: "(string \<times> 'v) list \<Rightarrow> string \<Rightarrow> 'v \<Rightarrow> (string \<times> 'v) list" where
  "dict_set [] k v = [(k, v)]"
| "dict_set ((k', v') # d) k v =
     (if k' = k then (k', v) # d else (k', v') # dict_set d k v)"

text \<open>
  \<^verbatim>\<open>d[k].append(v)\<close>: the lookup raises \<^verbatim>\<open>KeyError\<close> when the key is absent.
\<close>

fun dict_append :: "(string \<times> 'v list) list \<Rightarrow> string \<Rightarrow> 'v \<Rightarrow> py_exn + (string \<times> 'v list) list" where
  "dict_append [] k v = Inl KeyError"
| "dict_append ((k', col) # d) k v =
     (if k' = k then Inr ((k', col @ [v]) # d)
      else (case dict_append d k v of
              Inl e \<Rightarrow> Inl e
            | Inr d' \<Rightarrow> Inr ((k', col) # d')))"

text \<open>
  The mean of a pandas column is a float and is \<^verbatim>\<open>nan\<close> on an empty column. The model
  takes the mean of a non-empty column in the real numbers, leaving the rounding of the
  final division aside.
\<close>

datatype pyfloat = NaN | Fin real

definition series_mean :: "real list \<Rightarrow> pyfloat" where
  "series_mean xs = (if xs = [] then NaN else Fin (sum_list xs / real (length xs)))"

text \<open>The comparison \<^verbatim>\<open><\<close> on floats: false as soon as one side is \<^verbatim>\<open>nan\<close>.\<close>

fun float_lt :: "pyfloat \<Rightarrow> pyfloat \<Rightarrow> bool" where
  "float_lt (Fin a) (Fin b) = (a < b)"
| "float_lt _ _ = False"

text \<open>
  The builtin \<^verbatim>\<open>min(iterable, key=...)\<close>: it keeps the first item and replaces it only by
  an item whose key is strictly smaller; an empty iterable raises \<^verbatim>\<open>ValueError\<close>.
\<close>

fun min_loop :: "('a \<Rightarrow> pyfloat) \<Rightarrow> 'a \<Rightarrow> 'a list \<Rightarrow> 'a" where
  "min_loop key best [] = best"
| "min_loop key best (x # xs) =
     min_loop key (if float_lt (key x) (key best) then x else best) xs"

definition py_min :: "'a list \<Rightarrow> ('a \<Rightarrow> pyfloat) \<Rightarrow> py_exn + 'a" where
  "py_min xs key =
    (case xs of
       [] \<Rightarrow> Inl ValueError
     | x # rest \<Rightarrow> Inr (min_loop key x rest))"

section \<open>The driver (\<^verbatim>\<open>detect.py\<close>)\<close>

text \<open>
  The module-level dictionary \<^verbatim>\<open>MANIPULATION_TYPES\<close> is read by
  \<^verbatim>\<open>get_all_manipulation_types\<close> and by \<^verbatim>\<open>main\<close>. The model passes it as the argument
  \<open>cat\<close>, so that the results hold for every catalogue; the dictionary of \<^verbatim>\<open>utils.py\<close>
  is the instance the concrete runs below use.
\<close>

definition get_all_manipulation_types :: "(string \<times> string) list \<Rightarrow> string list" where
  "get_all_manipulation_types cat = map snd cat"

text \<open>
  The dictionary \<^verbatim>\<open>results\<close> of \<^verbatim>\<open>main\<close>: one list of scores per manipulation name, and
  the list under the key \<^verbatim>\<open>'image_id'\<close>, kept apart because it holds strings. The model
  is that of the code for catalogues none of whose names is \<^verbatim>\<open>image_id\<close>,
  \<^verbatim>\<open>method\<close> or \<^verbatim>\<open>avg_score\<close>.
\<close>

record results =
  scores :: "(string \<times> real list) list"
  image_id :: "string list"

text \<open>Line 52: the original files, filtered by suffix and sorted.\<close>

definition original_files :: "string list \<Rightarrow> string list" where
  "original_files names =
    sort (filter (\<lambda>f. endswith_any (lower f) [''.jpg'', ''.jpeg'', ''.png'']) names)"

text \<open>Lines 66 and 67: the path where the manipulated file is expected.\<close>

definition manip_path :: "path \<Rightarrow> string \<Rightarrow> string \<Rightarrow> path" where
  "manip_path manipulated ident letter = path_join manipulated (ident @ letter @ ''.jpg'')"

text \<open>Lines 65 to 74: the inner loop over the items of the catalogue.\<close>

fun cells :: "world \<Rightarrow> path \<Rightarrow> path \<Rightarrow> string \<Rightarrow> (string \<times> string) list
    \<Rightarrow> (string \<times> real list) list \<Rightarrow> py_exn + (string \<times> real list) list" where
  "cells w orig_path manipulated ident [] res = Inr res"
| "cells w orig_path manipulated ident ((letter, manip_name) # rest) res =
     (if \<not> path_exists w (manip_path manipulated ident letter) then
        (case dict_append res manip_name 0 of
           Inl e \<Rightarrow> Inl e
         | Inr res' \<Rightarrow> cells w orig_path manipulated ident rest res')
      else
        (case detect_matches w orig_path (manip_path manipulated ident letter) ''phash'' of
           Inl e \<Rightarrow> Inl e
         | Inr score \<Rightarrow>
            (case dict_append res manip_name score of
               Inl e \<Rightarrow> Inl e
             | Inr res' \<Rightarrow> cells w orig_path manipulated ident rest res')))"

text \<open>Lines 60 to 74: the outer loop over the original files.\<close>

fun rows :: "(string \<times> string) list \<Rightarrow> world \<Rightarrow> path \<Rightarrow> path \<Rightarrow> string list
    \<Rightarrow> results \<Rightarrow> py_exn + results" where
  "rows cat w originals manipulated [] res = Inr res"
| "rows cat w originals manipulated (orig_file # rest) res =
     (let orig_path = path_join originals orig_file;
          ident = fst (splitext orig_file);
          res1 = res\<lparr>image_id := image_id res @ [ident]\<rparr>
      in case cells w orig_path manipulated ident cat (scores res1) of
           Inl e \<Rightarrow> Inl e
         | Inr sc \<Rightarrow> rows cat w originals manipulated rest (res1\<lparr>scores := sc\<rparr>))"

text \<open>
  The data frame of lines 76 to 78: the score columns in the order of the dictionary, the
  column \<^verbatim>\<open>image_id\<close>, and the two columns added afterwards. \<^verbatim>\<open>pd.DataFrame\<close> raises
  \<^verbatim>\<open>ValueError\<close> when the lists of the dictionary differ in length.
\<close>

record dataframe =
  score_columns :: "(string \<times> real list) list"
  image_id_column :: "string list"
  method_column :: "string list"
  avg_score_column :: "pyfloat list"

definition row_means :: "(string \<times> real list) list \<Rightarrow> nat \<Rightarrow> pyfloat list" where
  "row_means cols m = map (\<lambda>i. series_mean (map (\<lambda>c. snd c ! i) cols)) [0..<m]"

definition DataFrame :: "results \<Rightarrow> py_exn + dataframe" where
  "DataFrame res =
    (if list_all (\<lambda>c. length (snd c) = length (image_id res)) (scores res) then
       Inr \<lparr>score_columns = scores res,
            image_id_column = image_id res,
            method_column = replicate (length (image_id res)) ''phash'',
            avg_score_column = row_means (scores res) (length (image_id res))\<rparr>
     else Inl ValueError)"

text \<open>Lines 52 to 78 of \<^verbatim>\<open>main\<close>: from the listing of the originals to the data frame.\<close>

definition main_table :: "(string \<times> string) list \<Rightarrow> world \<Rightarrow> path \<Rightarrow> path \<Rightarrow> py_exn + dataframe" where
  "main_table cat w originals manipulated =
    (case listdir w originals of
       Inl e \<Rightarrow> Inl e
     | Inr names \<Rightarrow>
        (let manipulation_types = get_all_manipulation_types cat;
             res = \<lparr>scores = foldl (\<lambda>d manip_name. dict_set d manip_name []) [] manipulation_types,
                    image_id = []\<rparr>
         in case rows cat w originals manipulated (original_files names) res of
              Inl e \<Rightarrow> Inl e
            | Inr res' \<Rightarrow> DataFrame res'))"

text \<open>
  Line 81: the dictionary comprehension \<^verbatim>\<open>avg_scores\<close>; \<^verbatim>\<open>df[manip_name]\<close> raises
  \<^verbatim>\<open>KeyError\<close> for a column that does not exist.
\<close>

fun avg_loop :: "dataframe \<Rightarrow> string list \<Rightarrow> (string \<times> pyfloat) list
    \<Rightarrow> py_exn + (string \<times> pyfloat) list" where
  "avg_loop df [] acc = Inr acc"
| "avg_loop df (manip_name # rest) acc =
     (case map_of (score_columns df) manip_name of
        None \<Rightarrow> Inl KeyError
      | Some col \<Rightarrow> avg_loop df rest (dict_set acc manip_name (series_mean col)))"

text \<open>
  \<^verbatim>\<open>avg_scores.get\<close>, the key function of line 82. It is only applied to keys of
  \<^verbatim>\<open>avg_scores\<close> itself, so the default of \<^verbatim>\<open>get\<close> is never returned.
\<close>

definition dict_get_float :: "(string \<times> pyfloat) list \<Rightarrow> string \<Rightarrow> pyfloat" where
  "dict_get_float d k = (case map_of d k of None \<Rightarrow> NaN | Some v \<Rightarrow> v)"

record report =
  df :: dataframe
  avg_scores :: "(string \<times> pyfloat) list"
  hardest_manip :: string
  hardest_score :: pyfloat

text \<open>
  \<^verbatim>\<open>main\<close>, lines 52 to 83. The parsing of the arguments and the creation of the output
  directory before, and the writing of the reports after, are not part of the model.
\<close>

definition main :: "(string \<times> string) list \<Rightarrow> world \<Rightarrow> path \<Rightarrow> path \<Rightarrow> py_exn + report" where
  "main cat w originals manipulated =
    (case main_table cat w originals manipulated of
       Inl e \<Rightarrow> Inl e
     | Inr frame \<Rightarrow>
    (case avg_loop frame (get_all_manipulation_types cat) [] of
       Inl e \<Rightarrow> Inl e
     | Inr avgs \<Rightarrow>
    (case py_min (map fst avgs) (dict_get_float avgs) of
       Inl e \<Rightarrow> Inl e
     | Inr hardest \<Rightarrow>
    (case map_of avgs hardest of
       None \<Rightarrow> Inl KeyError
     | Some score \<Rightarrow>
        Inr \<lparr>df = frame, avg_scores = avgs, hardest_manip = hardest, hardest_score = score\<rparr>))))"

section \<open>Notions used to state the properties\<close>

text \<open>
  What one pass of the inner loop appends for the original \<open>orig_file\<close> and the code
  \<open>letter\<close>, or the exception that leaves the loop there.
\<close>

definition cell_score :: "world \<Rightarrow> path \<Rightarrow> path \<Rightarrow> string \<Rightarrow> string \<Rightarrow> py_exn + real" where
  "cell_score w originals manipulated orig_file letter =
    (if \<not> path_exists w (manip_path manipulated (fst (splitext orig_file)) letter) then Inr 0
     else detect_matches w (path_join originals orig_file)
            (manip_path manipulated (fst (splitext orig_file)) letter) ''phash'')"

definition cell_value :: "world \<Rightarrow> path \<Rightarrow> path \<Rightarrow> string \<Rightarrow> string \<Rightarrow> real" where
  "cell_value w originals manipulated orig_file letter =
    (case cell_score w originals manipulated orig_file letter of
       Inl e \<Rightarrow> 0
     | Inr s \<Rightarrow> s)"

text \<open>The score columns after the originals \<open>fs\<close> have been processed.\<close>

definition table :: "(string \<times> string) list \<Rightarrow> world \<Rightarrow> path \<Rightarrow> path \<Rightarrow> string list
    \<Rightarrow> (string \<times> real list) list" where
  "table cat w originals manipulated fs =
    map (\<lambda>c. (snd c, map (\<lambda>f. cell_value w originals manipulated f (fst c)) fs)) cat"

text \<open>
  A catalogue as a Python dictionary literal gives it: no code twice; and as the driver
  needs it: no name twice, and no name among the three fixed column names.
\<close>

definition wf_catalogue :: "(string \<times> string) list \<Rightarrow> bool" where
  "wf_catalogue cat =
    (distinct (map fst cat) \<and> distinct (map snd cat)
     \<and> list_all (\<lambda>c. snd c \<noteq> ''image_id'' \<and> snd c \<noteq> ''method'' \<and> snd c \<noteq> ''avg_score'') cat)"

text \<open>The mean of the score column at position \<open>j\<close> of a data frame.\<close>

definition column_mean :: "dataframe \<Rightarrow> nat \<Rightarrow> real" where
  "column_mean frame j =
    sum_list (snd (score_columns frame ! j)) / real (length (snd (score_columns frame ! j)))"

section \<open>Concrete disks\<close>

text \<open>
  A small stand-in for the two libraries, used for the concrete runs: the conversion
  raises \<^verbatim>\<open>OSError\<close> on an image whose data are shorter than its size announces (a
  truncated file) and otherwise yields the image in mode \<^verbatim>\<open>L\<close>; the hash reads the
  sum of the pixel values as 64 bits.
\<close>

definition demo_convert :: "image \<Rightarrow> py_exn + image" where
  "demo_convert i =
    (if length (im_data i) < fst (im_size i) * snd (im_size i) then Inl OSError
     else Inr (i\<lparr>im_mode := ''L''\<rparr>))"

definition demo_phash :: "image \<Rightarrow> fingerprint" where
  "demo_phash i = of_nat (sum_list (im_data i))"

definition disk_world :: "string list \<Rightarrow> (path \<times> (py_exn + image)) list \<Rightarrow> world" where
  "disk_world names files =
    \<lparr>listdir = (\<lambda>d. if d = ''originals'' then Inr names else Inl FileNotFoundError),
     path_exists = (\<lambda>p. map_of files p \<noteq> None),
     image_open = (\<lambda>p. case map_of files p of None \<Rightarrow> Inl FileNotFoundError | Some r \<Rightarrow> r),
     convert_L = demo_convert,
     fromarray = (\<lambda>arr. \<lparr>im_mode = ''L'', im_size = (length arr, length (hd arr)), im_data = concat arr\<rparr>),
     phash = demo_phash\<rparr>"

text \<open>
  The first disk: two originals and a text file; of the manipulated files, two are good
  images and one (\<^verbatim>\<open>catb.jpg\<close>) is a file that Pillow does not identify as an image.
\<close>

definition img_cat :: image where
  "img_cat = \<lparr>im_mode = ''RGB'', im_size = (2, 2), im_data = [1, 2, 3, 4]\<rparr>"

definition img_cat_a :: image where
  "img_cat_a = \<lparr>im_mode = ''RGB'', im_size = (2, 2), im_data = [1, 2, 3, 5]\<rparr>"

definition img_ape :: image where
  "img_ape = \<lparr>im_mode = ''L'', im_size = (1, 2), im_data = [9, 9]\<rparr>"

definition img_ape_a :: image where
  "img_ape_a = \<lparr>im_mode = ''L'', im_size = (1, 2), im_data = [0, 0]\<rparr>"

definition demo_names :: "string list" where
  "demo_names = [''cat.jpg'', ''notes.txt'', ''Ape.PNG'']"

definition demo_files :: "(path \<times> (py_exn + image)) list" where
  "demo_files =
    [(''originals/cat.jpg'', Inr img_cat),
     (''originals/Ape.PNG'', Inr img_ape),
     (''originals/notes.txt'', Inl UnidentifiedImageError),
     (''manipulated/cata.jpg'', Inr img_cat_a),
     (''manipulated/catb.jpg'', Inl UnidentifiedImageError),
     (''manipulated/Apea.jpg'', Inr img_ape_a)]"

definition demo_world :: world where
  "demo_world = disk_world demo_names demo_files"

text \<open>
  The second disk: one original, and one manipulated file whose header is that of a 2 by
  2 image but whose data stop after the first pixel.
\<close>

definition img_cut :: image where
  "img_cut = \<lparr>im_mode = ''RGB'', im_size = (2, 2), im_data = [1]\<rparr>"

definition cut_world :: world where
  "cut_world =
    disk_world [''cat.jpg'']
      [(''originals/cat.jpg'', Inr img_cat), (''manipulated/cata.jpg'', Inr img_cut)]"

text \<open>
  The third disk: one original that Pillow refuses to open with an exception the clause
  of \<^verbatim>\<open>detect_matches\<close> does not catch, and no manipulated file at all.
\<close>

definition bomb_world :: world where
  "bomb_world = disk_world [''big.jpg''] [(''originals/big.jpg'', Inl DecompressionBombError)]"

section \<open>The score\<close>

lemma hash_sub_card:
  "hash_sub h1 h2 = int (card {n. n < 64 \<and> bit h1 n \<noteq> bit h2 n})"
proof -
  have "length (filter (\<lambda>n. bit h1 n \<noteq> bit h2 n) [0..<64])
      = card ({n. bit h1 n \<noteq> bit h2 n} \<inter> set [0..<64])"
    by (rule distinct_length_filter) simp
  also have "{n. bit h1 n \<noteq> bit h2 n} \<inter> set [0..<64] = {n. n < 64 \<and> bit h1 n \<noteq> bit h2 n}"
    by auto
  finally show ?thesis by (simp add: hash_sub_def)
qed

lemma hash_sub_nonneg: "0 \<le> hash_sub h1 h2"
  by (simp add: hash_sub_def)

lemma hash_sub_le_64: "hash_sub h1 h2 \<le> 64"
proof -
  have "length (filter (\<lambda>n. bit h1 n \<noteq> bit h2 n) [0..<64]) \<le> length [0..<64]"
    by (rule length_filter_le)
  then show ?thesis by (simp add: hash_sub_def)
qed

lemma hash_sub_self: "hash_sub h h = 0"
  by (simp add: hash_sub_def)

lemma hash_sub_commute: "hash_sub h1 h2 = hash_sub h2 h1"
proof -
  have "(\<lambda>n. bit h1 n \<noteq> bit h2 n) = (\<lambda>n. bit h2 n \<noteq> bit h1 n)"
    by auto
  then show ?thesis by (simp add: hash_sub_def)
qed

section \<open>The loops of the driver\<close>

lemma dict_set_fresh: "k \<notin> fst ` set d \<Longrightarrow> dict_set d k v = d @ [(k, v)]"
  by (induction d) auto

lemma init_results:
  "distinct ns \<Longrightarrow> fst ` set d \<inter> set ns = {} \<Longrightarrow>
   foldl (\<lambda>d n. dict_set d n []) d ns = d @ map (\<lambda>n. (n, [])) ns"
proof (induction ns arbitrary: d)
  case Nil
  then show ?case by simp
next
  case (Cons n ns)
  have fresh: "n \<notin> fst ` set d" using Cons.prems by auto
  have "fst ` set (d @ [(n, [])]) \<inter> set ns = {}" using Cons.prems by auto
  with Cons show ?case by (simp add: dict_set_fresh [OF fresh])
qed

lemma dict_append_mid:
  "k \<notin> fst ` set pre \<Longrightarrow> dict_append (pre @ (k, c) # post) k v = Inr (pre @ (k, c @ [v]) # post)"
  by (induction pre) auto

lemma cells_ok:
  assumes "distinct (map snd cs)" "length cols = length cs"
    "snd ` set cs \<inter> fst ` set pre = {}"
    "\<forall>c\<in>set cs. \<not> isl (cell_score w od md f (fst c))"
  shows "cells w (path_join od f) md (fst (splitext f)) cs (pre @ zip (map snd cs) cols)
       = Inr (pre @ map (\<lambda>(c, col). (snd c, col @ [cell_value w od md f (fst c)])) (zip cs cols))"
  using assms
proof (induction cs arbitrary: pre cols)
  case Nil
  then show ?case by simp
next
  case (Cons c cs)
  obtain letter name where c: "c = (letter, name)" by (cases c)
  obtain col cols' where cols: "cols = col # cols'" using Cons.prems(2) by (cases cols) auto
  have fresh: "name \<notin> fst ` set pre" using Cons.prems(3) c by auto
  have noraise: "\<not> isl (cell_score w od md f letter)" using Cons.prems(4) c by simp
  let ?v = "cell_value w od md f letter"
  let ?pre' = "pre @ [(name, col @ [?v])]"
  have ih: "cells w (path_join od f) md (fst (splitext f)) cs (?pre' @ zip (map snd cs) cols')
       = Inr (?pre' @ map (\<lambda>(c, col). (snd c, col @ [cell_value w od md f (fst c)])) (zip cs cols'))"
  proof (rule Cons.IH)
    show "distinct (map snd cs)" using Cons.prems(1) by simp
    show "length cols' = length cs" using Cons.prems(2) cols by simp
    show "snd ` set cs \<inter> fst ` set ?pre' = {}" using Cons.prems(1,3) c by auto
    show "\<forall>c\<in>set cs. \<not> isl (cell_score w od md f (fst c))" using Cons.prems(4) by simp
  qed
  show ?case
  proof (cases "path_exists w (manip_path md (fst (splitext f)) letter)")
    case False
    then have "?v = 0" by (simp add: cell_value_def cell_score_def)
    with False ih show ?thesis
      by (simp add: c cols dict_append_mid [OF fresh])
  next
    case True
    with noraise obtain s where
      s: "detect_matches w (path_join od f) (manip_path md (fst (splitext f)) letter) ''phash'' = Inr s"
      by (cases "detect_matches w (path_join od f) (manip_path md (fst (splitext f)) letter) ''phash''")
         (auto simp: cell_score_def)
    with True have "?v = s" by (simp add: cell_value_def cell_score_def)
    with True s ih show ?thesis
      by (simp add: c cols dict_append_mid [OF fresh])
  qed
qed

lemma cells_table:
  assumes "distinct (map snd cat)" "\<forall>c\<in>set cat. \<not> isl (cell_score w od md f (fst c))"
  shows "cells w (path_join od f) md (fst (splitext f)) cat (table cat w od md fs)
       = Inr (table cat w od md (fs @ [f]))"
proof -
  let ?cols = "map (\<lambda>c. map (\<lambda>f. cell_value w od md f (fst c)) fs) cat"
  have t: "table cat w od md fs = [] @ zip (map snd cat) ?cols"
    by (simp add: table_def zip_map_map zip_same_conv_map)
  have "cells w (path_join od f) md (fst (splitext f)) cat ([] @ zip (map snd cat) ?cols)
      = Inr ([] @ map (\<lambda>(c, col). (snd c, col @ [cell_value w od md f (fst c)])) (zip cat ?cols))"
    by (rule cells_ok) (use assms in simp_all)
  also have "map (\<lambda>(c, col). (snd c, col @ [cell_value w od md f (fst c)])) (zip cat ?cols)
      = table cat w od md (fs @ [f])"
    by (simp add: table_def zip_map2 zip_same_conv_map)
  finally show ?thesis using t by simp
qed

lemma rows_ok:
  assumes "distinct (map snd cat)"
    "\<forall>f\<in>set fs. \<forall>c\<in>set cat. \<not> isl (cell_score w od md f (fst c))"
  shows "rows cat w od md fs
           \<lparr>scores = table cat w od md fs0, image_id = map (\<lambda>f. fst (splitext f)) fs0\<rparr>
       = Inr \<lparr>scores = table cat w od md (fs0 @ fs),
              image_id = map (\<lambda>f. fst (splitext f)) (fs0 @ fs)\<rparr>"
  using assms
proof (induction fs arbitrary: fs0)
  case Nil
  then show ?case by simp
next
  case (Cons f fs)
  have c: "cells w (path_join od f) md (fst (splitext f)) cat (table cat w od md fs0)
       = Inr (table cat w od md (fs0 @ [f]))"
    by (rule cells_table) (use Cons.prems in simp_all)
  have "rows cat w od md fs
           \<lparr>scores = table cat w od md (fs0 @ [f]), image_id = map (\<lambda>f. fst (splitext f)) (fs0 @ [f])\<rparr>
       = Inr \<lparr>scores = table cat w od md ((fs0 @ [f]) @ fs),
              image_id = map (\<lambda>f. fst (splitext f)) ((fs0 @ [f]) @ fs)\<rparr>"
    by (rule Cons.IH) (use Cons.prems in simp_all)
  with c show ?case by simp
qed

lemma table_lengths:
  "list_all (\<lambda>c. length (snd c) = length fs) (table cat w od md fs)"
  by (simp add: table_def list_all_iff)

lemma main_table_ok:
  assumes "distinct (map snd cat)" "listdir w od = Inr names"
    "\<forall>f\<in>set (original_files names). \<forall>c\<in>set cat. \<not> isl (cell_score w od md f (fst c))"
  shows "main_table cat w od md =
     Inr \<lparr>score_columns = table cat w od md (original_files names),
          image_id_column = map (\<lambda>f. fst (splitext f)) (original_files names),
          method_column = replicate (length (original_files names)) ''phash'',
          avg_score_column = row_means (table cat w od md (original_files names))
                               (length (original_files names))\<rparr>"
proof -
  have init: "foldl (\<lambda>d n. dict_set d n []) [] (map snd cat) = table cat w od md []"
    using init_results [of "map snd cat" "[]"] assms(1) by (simp add: table_def comp_def)
  have "rows cat w od md (original_files names)
          \<lparr>scores = table cat w od md [], image_id = map (\<lambda>f. fst (splitext f)) []\<rparr>
      = Inr \<lparr>scores = table cat w od md ([] @ original_files names),
             image_id = map (\<lambda>f. fst (splitext f)) ([] @ original_files names)\<rparr>"
    by (rule rows_ok) (use assms in simp_all)
  then show ?thesis
    using table_lengths [of "original_files names" cat w od md]
    by (simp add: main_table_def assms(2) get_all_manipulation_types_def init DataFrame_def)
qed

lemma avg_loop_ok:
  assumes "distinct ns" "set ns \<inter> fst ` set acc = {}" "set ns \<subseteq> fst ` set (score_columns frame)"
  shows "avg_loop frame ns acc =
     Inr (acc @ map (\<lambda>n. (n, series_mean (the (map_of (score_columns frame) n)))) ns)"
  using assms
proof (induction ns arbitrary: acc)
  case Nil
  then show ?case by simp
next
  case (Cons n ns)
  from Cons.prems(3) obtain col where col: "map_of (score_columns frame) n = Some col"
    by (metis list.set_intros(1) subsetD domIff dom_map_of_conv_image_fst option.exhaust)
  have fresh: "n \<notin> fst ` set acc" using Cons.prems(2) by auto
  have "avg_loop frame ns (acc @ [(n, series_mean col)]) =
     Inr ((acc @ [(n, series_mean col)]) @ map (\<lambda>n. (n, series_mean (the (map_of (score_columns frame) n)))) ns)"
    by (rule Cons.IH) (use Cons.prems in auto)
  then show ?case by (simp add: col dict_set_fresh [OF fresh])
qed

lemma map_of_table:
  assumes "distinct (map snd cat)" "c \<in> set cat"
  shows "map_of (table cat w od md fs) (snd c) = Some (map (\<lambda>f. cell_value w od md f (fst c)) fs)"
proof -
  have "map_of (map (\<lambda>c. (snd c, map (\<lambda>f. cell_value w od md f (fst c)) fs)) cat) (snd c)
      = Some (map (\<lambda>f. cell_value w od md f (fst c)) fs)"
    using assms by (induction cat) (auto simp: image_iff)
  then show ?thesis by (simp add: table_def)
qed

lemma min_loop_first_min:
  assumes "\<forall>x\<in>set (b # xs). key x = Fin (g x)"
  shows "(min_loop key b xs = b \<and> (\<forall>x\<in>set xs. g b \<le> g x))
       \<or> (\<exists>ys zs. xs = ys @ min_loop key b xs # zs \<and> g (min_loop key b xs) < g b
            \<and> (\<forall>y\<in>set ys. g (min_loop key b xs) < g y)
            \<and> (\<forall>z\<in>set zs. g (min_loop key b xs) \<le> g z))"
  using assms
proof (induction xs arbitrary: b)
  case Nil
  then show ?case by simp
next
  case (Cons x xs)
  show ?case
  proof (cases "g x < g b")
    case True
    then have step: "min_loop key b (x # xs) = min_loop key x xs"
      using Cons.prems by simp
    let ?r = "min_loop key x xs"
    have "\<forall>y\<in>set (x # xs). key y = Fin (g y)" using Cons.prems by simp
    from Cons.IH [OF this]
    consider (stay) "?r = x" "\<forall>y\<in>set xs. g x \<le> g y"
      | (move) ys zs where "xs = ys @ ?r # zs" "g ?r < g x"
          "\<forall>y\<in>set ys. g ?r < g y" "\<forall>z\<in>set zs. g ?r \<le> g z"
      by blast
    then show ?thesis
    proof cases
      case stay
      then have "x # xs = [] @ ?r # xs \<and> g ?r < g b \<and> (\<forall>z\<in>set xs. g ?r \<le> g z)"
        using True by simp
      then show ?thesis unfolding step by (metis empty_iff list.set(1))
    next
      case move
      then have "x # xs = (x # ys) @ ?r # zs \<and> g ?r < g b
          \<and> (\<forall>y\<in>set (x # ys). g ?r < g y) \<and> (\<forall>z\<in>set zs. g ?r \<le> g z)"
        using True by auto
      then show ?thesis unfolding step by blast
    qed
  next
    case False
    then have step: "min_loop key b (x # xs) = min_loop key b xs"
      using Cons.prems by simp
    let ?r = "min_loop key b xs"
    have "\<forall>y\<in>set (b # xs). key y = Fin (g y)" using Cons.prems by simp
    from Cons.IH [OF this]
    consider (stay) "?r = b" "\<forall>y\<in>set xs. g b \<le> g y"
      | (move) ys zs where "xs = ys @ ?r # zs" "g ?r < g b"
          "\<forall>y\<in>set ys. g ?r < g y" "\<forall>z\<in>set zs. g ?r \<le> g z"
      by blast
    then show ?thesis
    proof cases
      case stay
      then show ?thesis unfolding step using False by auto
    next
      case move
      then have "x # xs = (x # ys) @ ?r # zs \<and> g ?r < g b
          \<and> (\<forall>y\<in>set (x # ys). g ?r < g y) \<and> (\<forall>z\<in>set zs. g ?r \<le> g z)"
        using False by auto
      then show ?thesis unfolding step by blast
    qed
  qed
qed

lemma min_loop_index:
  assumes "\<forall>x\<in>set (b # xs). key x = Fin (g x)"
  shows "\<exists>i<length (b # xs). min_loop key b xs = (b # xs) ! i
          \<and> (\<forall>j<length (b # xs). g ((b # xs) ! i) \<le> g ((b # xs) ! j))
          \<and> (\<forall>j<i. g ((b # xs) ! i) < g ((b # xs) ! j))"
proof -
  let ?r = "min_loop key b xs"
  from min_loop_first_min [OF assms]
  consider (stay) "?r = b" "\<forall>x\<in>set xs. g b \<le> g x"
    | (move) ys zs where "xs = ys @ ?r # zs" "g ?r < g b"
        "\<forall>y\<in>set ys. g ?r < g y" "\<forall>z\<in>set zs. g ?r \<le> g z"
    by blast
  then show ?thesis
  proof cases
    case stay
    have "\<forall>j<length (b # xs). g b \<le> g ((b # xs) ! j)"
    proof (intro allI impI)
      fix j assume "j < length (b # xs)"
      then have "(b # xs) ! j \<in> set (b # xs)" by (rule nth_mem)
      with stay(2) show "g b \<le> g ((b # xs) ! j)" by auto
    qed
    with stay(1) show ?thesis by (intro exI [of _ 0]) simp
  next
    case move
    let ?i = "Suc (length ys)"
    have len: "?i < length (b # xs)" using move(1) by (metis length_Cons length_append less_add_Suc1 not_less_eq add_Suc_right)
    have at: "(b # xs) ! ?i = ?r" using move(1) by (metis nth_Cons_Suc nth_append_length)
    have all: "\<forall>x\<in>set (b # xs). g ?r \<le> g x"
    proof
      fix x assume "x \<in> set (b # xs)"
      then have "x = b \<or> x \<in> set ys \<or> x = ?r \<or> x \<in> set zs"
        using move(1) by (metis Un_iff set_ConsD set_append)
      with move(2,3,4) show "g ?r \<le> g x" by (auto simp: less_imp_le)
    qed
    have le: "\<forall>j<length (b # xs). g ((b # xs) ! ?i) \<le> g ((b # xs) ! j)"
      unfolding at using all nth_mem by blast
    have lt: "\<forall>j<?i. g ((b # xs) ! ?i) < g ((b # xs) ! j)"
      unfolding at
    proof (intro allI impI)
      fix j assume j: "j < ?i"
      show "g ?r < g ((b # xs) ! j)"
      proof (cases j)
        case 0
        then show ?thesis using move(2) by simp
      next
        case (Suc k)
        then have k: "k < length ys" using j by simp
        then have "xs ! k = ys ! k" using move(1) by (metis nth_append)
        then show ?thesis using Suc k move(3) by simp
      qed
    qed
    from len at le lt show ?thesis by (intro exI [of _ ?i]) simp
  qed
qed

lemma map_of_keyed:
  "distinct (map snd cat) \<Longrightarrow> c \<in> set cat \<Longrightarrow> map_of (map (\<lambda>c. (snd c, F c)) cat) (snd c) = Some (F c)"
  by (induction cat) (auto simp: image_iff)

lemma min_loop_mem: "min_loop key b xs \<in> set (b # xs)"
  by (induction xs arbitrary: b) (simp, force)

lemma avg_loop_table:
  assumes "distinct (map snd cat)" "score_columns frame = table cat w od md fs"
  shows "avg_loop frame (map snd cat) [] =
     Inr (map (\<lambda>c. (snd c, series_mean (map (\<lambda>f. cell_value w od md f (fst c)) fs))) cat)"
proof -
  have keys: "set (map snd cat) \<subseteq> fst ` set (score_columns frame)"
    by (force simp: assms(2) table_def image_iff)
  have "avg_loop frame (map snd cat) [] =
     Inr ([] @ map (\<lambda>n. (n, series_mean (the (map_of (score_columns frame) n)))) (map snd cat))"
    by (rule avg_loop_ok) (use assms(1) keys in simp_all)
  moreover have "map (\<lambda>n. (n, series_mean (the (map_of (score_columns frame) n)))) (map snd cat)
      = map (\<lambda>c. (snd c, series_mean (map (\<lambda>f. cell_value w od md f (fst c)) fs))) cat"
    by (simp add: assms(2) map_of_table [OF assms(1)])
  ultimately show ?thesis by simp
qed

lemma main_ok:
  assumes "distinct (map snd cat)" "cat \<noteq> []" "main_table cat w od md = Inr frame"
    "score_columns frame = table cat w od md fs"
    "avgs = map (\<lambda>c. (snd c, series_mean (map (\<lambda>f. cell_value w od md f (fst c)) fs))) cat"
  shows "main cat w od md =
     Inr \<lparr>df = frame, avg_scores = avgs,
          hardest_manip = min_loop (dict_get_float avgs) (snd (hd cat)) (map snd (tl cat)),
          hardest_score = dict_get_float avgs
             (min_loop (dict_get_float avgs) (snd (hd cat)) (map snd (tl cat)))\<rparr>"
proof -
  let ?h = "min_loop (dict_get_float avgs) (snd (hd cat)) (map snd (tl cat))"
  have al: "avg_loop frame (get_all_manipulation_types cat) [] = Inr avgs"
    using avg_loop_table [OF assms(1,4)] assms(5) by (simp add: get_all_manipulation_types_def)
  have keys: "map fst avgs = snd (hd cat) # map snd (tl cat)"
    using assms(2) by (cases cat) (simp_all add: assms(5) comp_def)
  have pm: "py_min (map fst avgs) (dict_get_float avgs) = Inr ?h"
    by (simp add: py_min_def keys)
  have "?h \<in> set (snd (hd cat) # map snd (tl cat))" by (rule min_loop_mem)
  then have "?h \<in> snd ` set cat" using assms(2) by (cases cat) auto
  then obtain c where c: "c \<in> set cat" "?h = snd c" by auto
  have "map_of avgs (snd c) = Some (series_mean (map (\<lambda>f. cell_value w od md f (fst c)) fs))"
    unfolding assms(5) by (rule map_of_keyed [OF assms(1) c(1)])
  then have look: "map_of avgs ?h = Some (dict_get_float avgs ?h)"
    using c(2) by (simp add: dict_get_float_def)
  show ?thesis
    by (simp add: main_def assms(3) al pm look)
qed

section \<open>Facts about the concrete disks\<close>

lemma demo_open_cat: "image_open demo_world ''originals/cat.jpg'' = Inr img_cat"
  by (simp add: demo_world_def disk_world_def demo_files_def)

lemma demo_open_cat_a: "image_open demo_world ''manipulated/cata.jpg'' = Inr img_cat_a"
  by (simp add: demo_world_def disk_world_def demo_files_def)

lemma demo_convert_cat: "convert_L demo_world img_cat = Inr (img_cat\<lparr>im_mode := ''L''\<rparr>)"
  by (simp add: demo_world_def disk_world_def demo_convert_def img_cat_def)

lemma demo_convert_cat_a: "convert_L demo_world img_cat_a = Inr (img_cat_a\<lparr>im_mode := ''L''\<rparr>)"
  by (simp add: demo_world_def disk_world_def demo_convert_def img_cat_a_def)

lemma demo_listdir: "listdir demo_world ''originals'' = Inr demo_names"
  by (simp add: demo_world_def disk_world_def)

lemma demo_originals: "original_files demo_names = [''Ape.PNG'', ''cat.jpg'']"
  by code_simp

lemma wf_MANIPULATION_TYPES: "wf_catalogue MANIPULATION_TYPES"
  by code_simp

lemma demo_no_raise:
  "\<forall>f\<in>set (original_files demo_names). \<forall>c\<in>set MANIPULATION_TYPES.
     \<not> isl (cell_score demo_world ''originals'' ''manipulated'' f (fst c))"
  by code_simp

section \<open>Facts about the catalogue and the table\<close>

lemma wf_distinct: "wf_catalogue cat \<Longrightarrow> distinct (map snd cat)"
  by (simp add: wf_catalogue_def)

lemma table_nth:
  "j < length cat \<Longrightarrow> table cat w od md fs ! j
     = (snd (cat ! j), map (\<lambda>f. cell_value w od md f (fst (cat ! j))) fs)"
  by (simp add: table_def)

lemma original_files_sorted: "sorted (original_files names)"
  by (simp add: original_files_def)

lemma original_files_length:
  "length (original_files names)
     = length (filter (\<lambda>f. endswith_any (lower f) [''.jpg'', ''.jpeg'', ''.png'']) names)"
  by (simp add: original_files_def)

lemma main_returns:
  assumes "wf_catalogue cat" "cat \<noteq> []" "listdir w od = Inr names"
    "\<forall>f\<in>set (original_files names). \<forall>c\<in>set cat. \<not> isl (cell_score w od md f (fst c))"
  shows "\<exists>rep. main cat w od md = Inr rep
     \<and> score_columns (df rep) = table cat w od md (original_files names)
     \<and> image_id_column (df rep) = map (\<lambda>f. fst (splitext f)) (original_files names)
     \<and> avg_scores rep = map (\<lambda>c. (snd c, series_mean (map (\<lambda>f. cell_value w od md f (fst c))
                                   (original_files names)))) cat
     \<and> hardest_manip rep = min_loop (dict_get_float (avg_scores rep)) (snd (hd cat)) (map snd (tl cat))
     \<and> hardest_score rep = dict_get_float (avg_scores rep) (hardest_manip rep)"
proof -
  let ?fs = "original_files names"
  let ?frame = "\<lparr>score_columns = table cat w od md ?fs,
          image_id_column = map (\<lambda>f. fst (splitext f)) ?fs,
          method_column = replicate (length ?fs) ''phash'',
          avg_score_column = row_means (table cat w od md ?fs) (length ?fs)\<rparr>"
  let ?avgs = "map (\<lambda>c. (snd c, series_mean (map (\<lambda>f. cell_value w od md f (fst c)) ?fs))) cat"
  have d: "distinct (map snd cat)" by (rule wf_distinct [OF assms(1)])
  have run: "main_table cat w od md = Inr ?frame"
    by (rule main_table_ok [OF d assms(3,4)])
  have "main cat w od md =
     Inr \<lparr>df = ?frame, avg_scores = ?avgs,
          hardest_manip = min_loop (dict_get_float ?avgs) (snd (hd cat)) (map snd (tl cat)),
          hardest_score = dict_get_float ?avgs
             (min_loop (dict_get_float ?avgs) (snd (hd cat)) (map snd (tl cat)))\<rparr>"
  proof (rule main_ok [OF d assms(2) run])
    show "score_columns ?frame = table cat w od md ?fs" by simp
    show "?avgs = ?avgs" by (rule refl)
  qed
  then show ?thesis by simp
qed

lemma avg_lookup:
  assumes "distinct (map snd cat)" "j < length cat" "fs \<noteq> []"
    "avgs = map (\<lambda>c. (snd c, series_mean (map (\<lambda>f. cell_value w od md f (fst c)) fs))) cat"
    "score_columns frame = table cat w od md fs"
  shows "dict_get_float avgs (snd (cat ! j)) = Fin (column_mean frame j)"
proof -
  have mem: "cat ! j \<in> set cat" using assms(2) by simp
  have "map_of avgs (snd (cat ! j))
      = Some (series_mean (map (\<lambda>f. cell_value w od md f (fst (cat ! j))) fs))"
    unfolding assms(4) by (rule map_of_keyed [OF assms(1) mem])
  then have "dict_get_float avgs (snd (cat ! j))
      = series_mean (map (\<lambda>f. cell_value w od md f (fst (cat ! j))) fs)"
    by (simp add: dict_get_float_def)
  also have "\<dots> = Fin (column_mean frame j)"
    using assms(2,3) by (simp add: series_mean_def column_mean_def assms(5) table_nth)
  finally show ?thesis .
qed

lemma bomb_listdir: "listdir bomb_world ''originals'' = Inr [''big.jpg'']"
  by (simp add: bomb_world_def disk_world_def)

lemma bomb_originals: "original_files [''big.jpg''] = [''big.jpg'']"
  by code_simp

lemma bomb_no_raise:
  "\<forall>f\<in>set (original_files [''big.jpg'']). \<forall>c\<in>set MANIPULATION_TYPES.
     \<not> isl (cell_score bomb_world ''originals'' ''manipulated'' f (fst c))"
  by code_simp

lemma bomb_absent:
  "\<not> path_exists bomb_world
       (manip_path ''manipulated'' (fst (splitext (original_files [''big.jpg''] ! 0)))
          (fst (MANIPULATION_TYPES ! 2)))"
  by code_simp

lemma bomb_detect:
  "detect_matches bomb_world ''originals/big.jpg'' ''manipulated/bigc.jpg'' ''phash''
     = Inl DecompressionBombError"
  by (simp add: detect_matches_def bomb_world_def disk_world_def)

lemma demo_originals_nonempty: "original_files demo_names \<noteq> []"
  by (simp add: demo_originals)

lemma demo_run_hardest:
  "map_sum id (\<lambda>rep. (hardest_manip rep, hardest_score rep))
     (main MANIPULATION_TYPES demo_world ''originals'' ''manipulated'') = Inr (''rotate_10'', Fin 0)"
  by code_simp

lemma open_failure_scores_zero:
  assumes "image_open w manipulated_path = Inl e" "is_IOError e"
    "image_open w original_path = Inr img1"
  shows "detect_matches w original_path manipulated_path method = Inr 0"
  using assms by (simp add: detect_matches_def)

section \<open>Properties of the scorer\<close>

text \<open>
  C1. For two 64-bit fingerprints at Hamming distance \<open>d\<close> (the number of bit positions
  below 64 where they differ), the score that \<^verbatim>\<open>calculate_match_score\<close> returns for
  the match list of \<^verbatim>\<open>match_features\<close> is \<open>(64 - d) / 64 * 100\<close>, and it lies between
  0 and 100, both included.
\<close>

theorem score_formula_and_range:
  "calculate_match_score (match_features (Some h1) (Some h2) ''phash'') ''phash'' threshold
     = (64 - real (card {n. n < 64 \<and> bit h1 n \<noteq> bit h2 n})) / 64 * 100
   \<and> 0 \<le> calculate_match_score (match_features (Some h1) (Some h2) ''phash'') ''phash'' threshold
   \<and> calculate_match_score (match_features (Some h1) (Some h2) ''phash'') ''phash'' threshold \<le> 100"
proof -
  have lo: "0 \<le> hash_sub h1 h2" by (rule hash_sub_nonneg)
  have hi: "hash_sub h1 h2 \<le> 64" by (rule hash_sub_le_64)
  have sc: "calculate_match_score (match_features (Some h1) (Some h2) ''phash'') ''phash'' threshold
     = (64 - real_of_int (hash_sub h1 h2)) / 64 * 100"
    by (simp add: calculate_match_score_def match_features_def)
  have eq: "real_of_int (hash_sub h1 h2) = real (card {n. n < 64 \<and> bit h1 n \<noteq> bit h2 n})"
    by (simp add: hash_sub_card)
  from lo hi have "0 \<le> (64 - real_of_int (hash_sub h1 h2)) / 64 * 100"
    and "(64 - real_of_int (hash_sub h1 h2)) / 64 * 100 \<le> 100"
    by simp_all
  with sc eq show ?thesis by simp
qed

text \<open>
  C7. The score of two descriptors does not depend on their order and lies between 0 and
  100. The statement covers every pair of fingerprints under the method \<^verbatim>\<open>phash\<close>;
  it also holds when a descriptor is absent or the method is another one, where both
  sides are 0.
\<close>

theorem score_symmetric:
  "calculate_match_score (match_features desc1 desc2 method) method threshold
     = calculate_match_score (match_features desc2 desc1 method) method threshold
   \<and> 0 \<le> calculate_match_score (match_features desc1 desc2 method) method threshold
   \<and> calculate_match_score (match_features desc1 desc2 method) method threshold \<le> 100"
proof (cases "\<exists>h1 h2. desc1 = Some h1 \<and> desc2 = Some h2 \<and> method = ''phash''")
  case True
  then obtain h1 h2 where d: "desc1 = Some h1" "desc2 = Some h2" "method = ''phash''" by blast
  have lo: "0 \<le> hash_sub h1 h2" by (rule hash_sub_nonneg)
  have hi: "hash_sub h1 h2 \<le> 64" by (rule hash_sub_le_64)
  have sym: "hash_sub h2 h1 = hash_sub h1 h2" by (rule hash_sub_commute)
  from lo hi show ?thesis
    by (simp add: d calculate_match_score_def match_features_def sym)
next
  case False
  then have "match_features desc1 desc2 method = []" "match_features desc2 desc1 method = []"
    by (auto simp: match_features_def split: option.splits)
  then show ?thesis by (simp add: calculate_match_score_def)
qed

text \<open>
  C9. When one of the two descriptors is \<^verbatim>\<open>None\<close>, \<^verbatim>\<open>match_features\<close> returns the
  empty list, so no \<^verbatim>\<open>MockMatch\<close> and no distance is built, and
  \<^verbatim>\<open>calculate_match_score\<close> maps the empty list to 0.
\<close>

theorem absent_fingerprint_scores_zero:
  assumes "desc1 = None \<or> desc2 = None"
  shows "match_features desc1 desc2 method = []
       \<and> calculate_match_score [] method threshold = 0
       \<and> calculate_match_score (match_features desc1 desc2 method) method threshold = 0"
proof -
  have "match_features desc1 desc2 method = []"
    using assms by (auto simp: match_features_def split: option.splits)
  then show ?thesis by (simp add: calculate_match_score_def)
qed

theorem absent_fingerprint_scores_zero_witness:
  "((None :: fingerprint option) = None \<or> Some (5 :: fingerprint) = None)
   \<and> match_features None (Some 5) ''phash'' = []
   \<and> calculate_match_score [] ''phash'' 0.75 = 0
   \<and> calculate_match_score (match_features None (Some 5) ''phash'') ''phash'' 0.75 = 0"
proof -
  have h: "(None :: fingerprint option) = None \<or> Some (5 :: fingerprint) = None" by simp
  from absent_fingerprint_scores_zero [OF h, of "''phash''" "0.75"] h show ?thesis by simp
qed

section \<open>Properties of \<^verbatim>\<open>detect_matches\<close>\<close>

text \<open>
  C6. For an image whose file opens and decodes, the score of its fingerprint with itself
  is 100, and \<^verbatim>\<open>detect_matches\<close> called with its path twice returns 100.
\<close>

theorem same_image_scores_100:
  assumes "image_open w p = Inr i" "convert_L w i = Inr g"
  shows "calculate_match_score
           (match_features (Some (phash w g)) (Some (phash w g)) ''phash'') ''phash'' threshold = 100
       \<and> detect_matches w p p ''phash'' = Inr 100"
  using assms
  by (simp add: extract_features_def match_features_def calculate_match_score_def
      detect_matches_def hash_sub_self)

theorem same_image_scores_100_witness:
  "image_open demo_world ''originals/cat.jpg'' = Inr img_cat
   \<and> convert_L demo_world img_cat = Inr (img_cat\<lparr>im_mode := ''L''\<rparr>)
   \<and> detect_matches demo_world ''originals/cat.jpg'' ''originals/cat.jpg'' ''phash'' = Inr 100"
  using same_image_scores_100 [OF demo_open_cat demo_convert_cat] demo_open_cat demo_convert_cat
  by simp

text \<open>
  C8. Whatever the modes of the two opened images, \<^verbatim>\<open>detect_matches\<close> hands to
  \<^verbatim>\<open>extract_features\<close> the results of \<^verbatim>\<open>convert('L')\<close>, and the fingerprints that
  enter the score are the hashes of these grayscale images. The conversion is made by
  \<^verbatim>\<open>detect_matches\<close> without a test of the mode; \<^verbatim>\<open>extract_features\<close> itself
  passes its argument on to \<^verbatim>\<open>phash\<close>.
\<close>

theorem hash_taken_from_luminance:
  assumes "image_open w p1 = Inr i1" "image_open w p2 = Inr i2"
    "convert_L w i1 = Inr g1" "convert_L w i2 = Inr g2"
  shows "detect_matches w p1 p2 ''phash'' =
     Inr (calculate_match_score
            (match_features (fst (extract_features w (Pil g1) ''phash''))
               (fst (extract_features w (Pil g2) ''phash'')) ''phash'') ''phash'' 0.75)
       \<and> fst (extract_features w (Pil g1) ''phash'') = Some (phash w g1)
       \<and> fst (extract_features w (Pil g2) ''phash'') = Some (phash w g2)"
  using assms by (simp add: detect_matches_def extract_features_def)

theorem hash_taken_from_luminance_witness:
  "image_open demo_world ''originals/cat.jpg'' = Inr img_cat
   \<and> image_open demo_world ''manipulated/cata.jpg'' = Inr img_cat_a
   \<and> im_mode img_cat = ''RGB''
   \<and> convert_L demo_world img_cat = Inr (img_cat\<lparr>im_mode := ''L''\<rparr>)
   \<and> convert_L demo_world img_cat_a = Inr (img_cat_a\<lparr>im_mode := ''L''\<rparr>)
   \<and> fst (extract_features demo_world (Pil (img_cat\<lparr>im_mode := ''L''\<rparr>)) ''phash'')
       = Some (phash demo_world (img_cat\<lparr>im_mode := ''L''\<rparr>))"
  using hash_taken_from_luminance [OF demo_open_cat demo_open_cat_a demo_convert_cat demo_convert_cat_a]
    demo_open_cat demo_open_cat_a demo_convert_cat demo_convert_cat_a
  by (simp add: img_cat_def)

text \<open>
  C10. With a method other than \<^verbatim>\<open>phash\<close>, \<^verbatim>\<open>extract_features\<close> yields no
  fingerprint, \<^verbatim>\<open>match_features\<close> no match, \<^verbatim>\<open>calculate_match_score\<close> the score 0,
  and \<^verbatim>\<open>detect_matches\<close> returns 0 for every two readable paths, the same path given
  twice included.
\<close>

theorem other_method_scores_zero:
  assumes "method \<noteq> ''phash''"
    "image_open w p1 = Inr i1" "image_open w p2 = Inr i2"
    "convert_L w i1 = Inr g1" "convert_L w i2 = Inr g2"
  shows "extract_features w (Pil g1) method = (None, None)
       \<and> extract_features w (Pil g2) method = (None, None)
       \<and> match_features None None method = []
       \<and> calculate_match_score [] method threshold = 0
       \<and> detect_matches w p1 p2 method = Inr 0"
  using assms
  by (simp add: extract_features_def match_features_def calculate_match_score_def detect_matches_def)

theorem other_method_scores_zero_witness:
  "''sift'' \<noteq> ''phash''
   \<and> image_open demo_world ''originals/cat.jpg'' = Inr img_cat
   \<and> convert_L demo_world img_cat = Inr (img_cat\<lparr>im_mode := ''L''\<rparr>)
   \<and> detect_matches demo_world ''originals/cat.jpg'' ''originals/cat.jpg'' ''sift'' = Inr 0"
proof -
  have m: "''sift'' \<noteq> ''phash''" by simp
  from other_method_scores_zero [OF m demo_open_cat demo_open_cat demo_convert_cat demo_convert_cat]
    m demo_open_cat demo_convert_cat
  show ?thesis by simp
qed

section \<open>Properties of the driver\<close>

text \<open>
  C4. When the listing of the originals succeeds and no pair whose manipulated file is
  present raises, the driver builds a data frame with one row per original image, in the
  sorted order of the file names, and one score column per entry of the catalogue, each
  column holding a value for every row. Nothing is asked of the manipulated files that
  are missing: any number of them may be.
\<close>

theorem result_table_shape:
  assumes "wf_catalogue cat" "listdir w od = Inr names"
    "\<forall>f\<in>set (original_files names). \<forall>c\<in>set cat. \<not> isl (cell_score w od md f (fst c))"
  shows "\<exists>frame. main_table cat w od md = Inr frame
     \<and> image_id_column frame = map (\<lambda>f. fst (splitext f)) (original_files names)
     \<and> sorted (original_files names)
     \<and> length (image_id_column frame)
         = length (filter (\<lambda>f. endswith_any (lower f) [''.jpg'', ''.jpeg'', ''.png'']) names)
     \<and> map fst (score_columns frame) = map snd cat
     \<and> length (score_columns frame) = length cat
     \<and> list_all (\<lambda>c. length (snd c) = length (image_id_column frame)) (score_columns frame)
     \<and> length (method_column frame) = length (image_id_column frame)
     \<and> length (avg_score_column frame) = length (image_id_column frame)"
proof -
  let ?fs = "original_files names"
  let ?frame = "\<lparr>score_columns = table cat w od md ?fs,
          image_id_column = map (\<lambda>f. fst (splitext f)) ?fs,
          method_column = replicate (length ?fs) ''phash'',
          avg_score_column = row_means (table cat w od md ?fs) (length ?fs)\<rparr>"
  have run: "main_table cat w od md = Inr ?frame"
    by (rule main_table_ok [OF wf_distinct [OF assms(1)] assms(2,3)])
  have names: "map fst (table cat w od md ?fs) = map snd cat"
    by (simp add: table_def comp_def)
  have lens: "list_all (\<lambda>c. length (snd c) = length ?fs) (table cat w od md ?fs)"
    by (rule table_lengths)
  have len: "length (table cat w od md ?fs) = length cat"
    by (simp add: table_def)
  have "main_table cat w od md = Inr ?frame
     \<and> image_id_column ?frame = map (\<lambda>f. fst (splitext f)) ?fs
     \<and> sorted ?fs
     \<and> length (image_id_column ?frame)
         = length (filter (\<lambda>f. endswith_any (lower f) [''.jpg'', ''.jpeg'', ''.png'']) names)
     \<and> map fst (score_columns ?frame) = map snd cat
     \<and> length (score_columns ?frame) = length cat
     \<and> list_all (\<lambda>c. length (snd c) = length (image_id_column ?frame)) (score_columns ?frame)
     \<and> length (method_column ?frame) = length (image_id_column ?frame)
     \<and> length (avg_score_column ?frame) = length (image_id_column ?frame)"
    using run names lens len
    by (simp add: original_files_sorted original_files_length row_means_def)
  then show ?thesis by (rule exI)
qed

theorem result_table_shape_witness:
  "wf_catalogue MANIPULATION_TYPES
   \<and> listdir demo_world ''originals'' = Inr demo_names
   \<and> list_all (\<lambda>f. list_all (\<lambda>c. \<not> isl (cell_score demo_world ''originals'' ''manipulated'' f (fst c)))
                   MANIPULATION_TYPES) (original_files demo_names)
   \<and> (\<exists>frame. main_table MANIPULATION_TYPES demo_world ''originals'' ''manipulated'' = Inr frame
        \<and> image_id_column frame = [''Ape'', ''cat'']
        \<and> length (score_columns frame) = 14
        \<and> list_all (\<lambda>c. length (snd c) = 2) (score_columns frame))"
proof -
  have ids: "map (\<lambda>f. fst (splitext f)) [''Ape.PNG'', ''cat.jpg''] = [''Ape'', ''cat'']"
    by code_simp
  have k: "length MANIPULATION_TYPES = 14"
    by (simp add: MANIPULATION_TYPES_def)
  from result_table_shape [OF wf_MANIPULATION_TYPES demo_listdir demo_no_raise]
  obtain frame where
    run: "main_table MANIPULATION_TYPES demo_world ''originals'' ''manipulated'' = Inr frame"
    and id: "image_id_column frame = map (\<lambda>f. fst (splitext f)) (original_files demo_names)"
    and cols: "length (score_columns frame) = length MANIPULATION_TYPES"
    and full: "list_all (\<lambda>c. length (snd c) = length (image_id_column frame)) (score_columns frame)"
    by blast
  have id': "image_id_column frame = [''Ape'', ''cat'']"
    using id by (simp only: demo_originals ids)
  have full': "list_all (\<lambda>c. length (snd c) = 2) (score_columns frame)"
  proof -
    have "length (image_id_column frame) = 2" by (simp add: id')
    with full show ?thesis by (simp only:)
  qed
  have "main_table MANIPULATION_TYPES demo_world ''originals'' ''manipulated'' = Inr frame
        \<and> image_id_column frame = [''Ape'', ''cat'']
        \<and> length (score_columns frame) = 14
        \<and> list_all (\<lambda>c. length (snd c) = 2) (score_columns frame)"
    using run id' cols full' by (simp add: k)
  then have "\<exists>frame. main_table MANIPULATION_TYPES demo_world ''originals'' ''manipulated'' = Inr frame
        \<and> image_id_column frame = [''Ape'', ''cat'']
        \<and> length (score_columns frame) = 14
        \<and> list_all (\<lambda>c. length (snd c) = 2) (score_columns frame)"
    by (rule exI)
  with wf_MANIPULATION_TYPES demo_listdir demo_no_raise show ?thesis
    by (simp only: list_all_iff)
qed

text \<open>
  C2. When the file expected for an original and a code of the catalogue is absent, the
  pass of the inner loop for this cell yields 0, and the run, whose listing succeeds and
  whose present pairs do not raise, returns a report where the cell of this row and
  column holds 0. Nothing is assumed of what \<^verbatim>\<open>Image.open\<close>, the conversion or the hash
  would do on the absent pair: the score does not come from \<^verbatim>\<open>detect_matches\<close>. On
  the third disk the original itself makes \<^verbatim>\<open>detect_matches\<close> raise, and the run
  still returns a row of zeros.
\<close>

theorem missing_file_scores_zero:
  assumes "wf_catalogue cat" "cat \<noteq> []" "listdir w od = Inr names"
    "\<forall>f\<in>set (original_files names). \<forall>c\<in>set cat. \<not> isl (cell_score w od md f (fst c))"
    "i < length (original_files names)" "j < length cat"
    "\<not> path_exists w (manip_path md (fst (splitext (original_files names ! i))) (fst (cat ! j)))"
  shows "cell_score w od md (original_files names ! i) (fst (cat ! j)) = Inr 0
     \<and> (\<exists>rep. main cat w od md = Inr rep
          \<and> image_id_column (df rep) ! i = fst (splitext (original_files names ! i))
          \<and> fst (score_columns (df rep) ! j) = snd (cat ! j)
          \<and> snd (score_columns (df rep) ! j) ! i = 0)"
proof -
  let ?fs = "original_files names"
  have cs: "cell_score w od md (?fs ! i) (fst (cat ! j)) = Inr 0"
    using assms(7) by (simp add: cell_score_def)
  then have cv: "cell_value w od md (?fs ! i) (fst (cat ! j)) = 0"
    by (simp add: cell_value_def)
  from main_returns [OF assms(1-4)] obtain rep where
    run: "main cat w od md = Inr rep"
    and cols: "score_columns (df rep) = table cat w od md ?fs"
    and ids: "image_id_column (df rep) = map (\<lambda>f. fst (splitext f)) ?fs"
    by blast
  have "image_id_column (df rep) ! i = fst (splitext (?fs ! i))"
    using assms(5) by (simp add: ids)
  moreover have "fst (score_columns (df rep) ! j) = snd (cat ! j)"
    using assms(6) by (simp add: cols table_nth)
  moreover have "snd (score_columns (df rep) ! j) ! i = 0"
    using assms(5,6) cv by (simp add: cols table_nth)
  ultimately show ?thesis using cs run by blast
qed

theorem missing_file_scores_zero_witness:
  "wf_catalogue MANIPULATION_TYPES \<and> MANIPULATION_TYPES \<noteq> []
   \<and> listdir bomb_world ''originals'' = Inr [''big.jpg'']
   \<and> list_all (\<lambda>f. list_all (\<lambda>c. \<not> isl (cell_score bomb_world ''originals'' ''manipulated'' f (fst c)))
                   MANIPULATION_TYPES) (original_files [''big.jpg''])
   \<and> \<not> path_exists bomb_world ''manipulated/bigc.jpg''
   \<and> detect_matches bomb_world ''originals/big.jpg'' ''manipulated/bigc.jpg'' ''phash''
        = Inl DecompressionBombError
   \<and> (\<exists>rep. main MANIPULATION_TYPES bomb_world ''originals'' ''manipulated'' = Inr rep
        \<and> image_id_column (df rep) ! 0 = ''big''
        \<and> fst (score_columns (df rep) ! 2) = ''flip_h''
        \<and> snd (score_columns (df rep) ! 2) ! 0 = 0)"
proof -
  have ne: "MANIPULATION_TYPES \<noteq> []" by (simp add: MANIPULATION_TYPES_def)
  have i: "0 < length (original_files [''big.jpg''])" by (simp add: bomb_originals)
  have j: "2 < length MANIPULATION_TYPES" by (simp add: MANIPULATION_TYPES_def)
  have id: "fst (splitext (original_files [''big.jpg''] ! 0)) = ''big''" by code_simp
  have nm: "snd (MANIPULATION_TYPES ! 2) = ''flip_h''" by (simp add: MANIPULATION_TYPES_def)
  have ab: "\<not> path_exists bomb_world ''manipulated/bigc.jpg''"
    by (simp add: bomb_world_def disk_world_def)
  from missing_file_scores_zero
    [OF wf_MANIPULATION_TYPES ne bomb_listdir bomb_no_raise i j bomb_absent]
  have "\<exists>rep. main MANIPULATION_TYPES bomb_world ''originals'' ''manipulated'' = Inr rep
        \<and> image_id_column (df rep) ! 0 = ''big''
        \<and> fst (score_columns (df rep) ! 2) = ''flip_h''
        \<and> snd (score_columns (df rep) ! 2) ! 0 = 0"
    by (simp only: id nm)
  with wf_MANIPULATION_TYPES ne bomb_listdir bomb_no_raise ab bomb_detect show ?thesis
    unfolding list_all_iff by blast
qed

text \<open>
  C5. When the run completes on at least one original, the hardest manipulation it
  reports is an entry of the catalogue whose column mean is not above the mean of any
  other entry and strictly below the mean of every entry before it in the order of the
  catalogue; the score reported with it is this mean.
\<close>

theorem hardest_is_first_minimum:
  assumes "wf_catalogue cat" "cat \<noteq> []" "listdir w od = Inr names"
    "original_files names \<noteq> []"
    "\<forall>f\<in>set (original_files names). \<forall>c\<in>set cat. \<not> isl (cell_score w od md f (fst c))"
  shows "\<exists>rep i. main cat w od md = Inr rep \<and> i < length cat
     \<and> hardest_manip rep = snd (cat ! i)
     \<and> hardest_score rep = Fin (column_mean (df rep) i)
     \<and> avg_scores rep = map (\<lambda>j. (snd (cat ! j), Fin (column_mean (df rep) j))) [0..<length cat]
     \<and> (\<forall>j<length cat. column_mean (df rep) i \<le> column_mean (df rep) j)
     \<and> (\<forall>j<i. column_mean (df rep) i < column_mean (df rep) j)"
proof -
  let ?fs = "original_files names"
  have d: "distinct (map snd cat)" by (rule wf_distinct [OF assms(1)])
  from main_returns [OF assms(1,2,3,5)] obtain rep where
    run: "main cat w od md = Inr rep"
    and cols: "score_columns (df rep) = table cat w od md ?fs"
    and avgs: "avg_scores rep = map (\<lambda>c. (snd c, series_mean (map (\<lambda>f. cell_value w od md f (fst c)) ?fs))) cat"
    and hard: "hardest_manip rep = min_loop (dict_get_float (avg_scores rep)) (snd (hd cat)) (map snd (tl cat))"
    and score: "hardest_score rep = dict_get_float (avg_scores rep) (hardest_manip rep)"
    by blast
  let ?key = "dict_get_float (avg_scores rep)"
  let ?names = "snd (hd cat) # map snd (tl cat)"
  have names: "?names = map snd cat" using assms(2) by (cases cat) simp_all
  have look: "?key (snd (cat ! j)) = Fin (column_mean (df rep) j)" if "j < length cat" for j
    by (rule avg_lookup [OF d that assms(4) avgs cols])
  define g where "g n = (case ?key n of Fin r \<Rightarrow> r | NaN \<Rightarrow> 0)" for n
  have g_nth: "g (snd (cat ! j)) = column_mean (df rep) j" if "j < length cat" for j
    using look [OF that] by (simp add: g_def)
  have fin: "\<forall>x\<in>set ?names. ?key x = Fin (g x)"
  proof
    fix x assume "x \<in> set ?names"
    then have "x \<in> set (map snd cat)" by (simp only: names)
    then obtain j where j: "j < length cat" "x = snd (cat ! j)"
      by (auto simp: in_set_conv_nth)
    show "?key x = Fin (g x)" using look [OF j(1)] j(2) by (simp add: g_def)
  qed
  from min_loop_index [OF fin] obtain i where
    i: "i < length ?names"
    and at: "min_loop ?key (snd (hd cat)) (map snd (tl cat)) = ?names ! i"
    and le: "\<forall>j<length ?names. g (?names ! i) \<le> g (?names ! j)"
    and lt: "\<forall>j<i. g (?names ! i) < g (?names ! j)"
    by blast
  have len: "length ?names = length cat" by (simp add: names)
  have nth: "?names ! j = snd (cat ! j)" if "j < length cat" for j
    using that by (simp only: names nth_map)
  have i': "i < length cat" using i len by simp
  have h1: "hardest_manip rep = snd (cat ! i)"
    using hard at nth [OF i'] by simp
  have h2: "hardest_score rep = Fin (column_mean (df rep) i)"
    using score h1 look [OF i'] by simp
  have h3: "avg_scores rep = map (\<lambda>j. (snd (cat ! j), Fin (column_mean (df rep) j))) [0..<length cat]"
  proof (rule nth_equalityI)
    show "length (avg_scores rep)
        = length (map (\<lambda>j. (snd (cat ! j), Fin (column_mean (df rep) j))) [0..<length cat])"
      by (simp add: avgs)
  next
    fix j assume "j < length (avg_scores rep)"
    then have j: "j < length cat" by (simp add: avgs)
    have "cat ! j \<in> set cat" using j by simp
    have "avg_scores rep ! j
        = (snd (cat ! j), series_mean (map (\<lambda>f. cell_value w od md f (fst (cat ! j))) ?fs))"
      using j by (simp add: avgs)
    also have "series_mean (map (\<lambda>f. cell_value w od md f (fst (cat ! j))) ?fs)
        = Fin (column_mean (df rep) j)"
      using j assms(4) by (simp add: series_mean_def column_mean_def cols table_nth)
    finally show "avg_scores rep ! j
        = map (\<lambda>j. (snd (cat ! j), Fin (column_mean (df rep) j))) [0..<length cat] ! j"
      using j by simp
  qed
  have h4: "\<forall>j<length cat. column_mean (df rep) i \<le> column_mean (df rep) j"
  proof (intro allI impI)
    fix j assume j: "j < length cat"
    then have "g (?names ! i) \<le> g (?names ! j)" using le len by simp
    then show "column_mean (df rep) i \<le> column_mean (df rep) j"
      by (simp only: nth [OF i'] nth [OF j] g_nth [OF i'] g_nth [OF j])
  qed
  have h5: "\<forall>j<i. column_mean (df rep) i < column_mean (df rep) j"
  proof (intro allI impI)
    fix j assume ji: "j < i"
    then have j: "j < length cat" using i' by simp
    from ji have "g (?names ! i) < g (?names ! j)" using lt by simp
    then show "column_mean (df rep) i < column_mean (df rep) j"
      by (simp only: nth [OF i'] nth [OF j] g_nth [OF i'] g_nth [OF j])
  qed
  from run i' h1 h2 h3 h4 h5 show ?thesis by blast
qed

theorem hardest_is_first_minimum_witness:
  "wf_catalogue MANIPULATION_TYPES \<and> MANIPULATION_TYPES \<noteq> []
   \<and> listdir demo_world ''originals'' = Inr demo_names
   \<and> original_files demo_names \<noteq> []
   \<and> list_all (\<lambda>f. list_all (\<lambda>c. \<not> isl (cell_score demo_world ''originals'' ''manipulated'' f (fst c)))
                   MANIPULATION_TYPES) (original_files demo_names)
   \<and> (\<exists>rep i. main MANIPULATION_TYPES demo_world ''originals'' ''manipulated'' = Inr rep
        \<and> i < length MANIPULATION_TYPES
        \<and> hardest_manip rep = snd (MANIPULATION_TYPES ! i)
        \<and> hardest_score rep = Fin (column_mean (df rep) i)
        \<and> (\<forall>j<length MANIPULATION_TYPES. column_mean (df rep) i \<le> column_mean (df rep) j)
        \<and> (\<forall>j<i. column_mean (df rep) i < column_mean (df rep) j))"
proof -
  have ne: "MANIPULATION_TYPES \<noteq> []" by (simp add: MANIPULATION_TYPES_def)
  from hardest_is_first_minimum
    [OF wf_MANIPULATION_TYPES ne demo_listdir demo_originals_nonempty demo_no_raise]
  have "\<exists>rep i. main MANIPULATION_TYPES demo_world ''originals'' ''manipulated'' = Inr rep
        \<and> i < length MANIPULATION_TYPES
        \<and> hardest_manip rep = snd (MANIPULATION_TYPES ! i)
        \<and> hardest_score rep = Fin (column_mean (df rep) i)
        \<and> (\<forall>j<length MANIPULATION_TYPES. column_mean (df rep) i \<le> column_mean (df rep) j)
        \<and> (\<forall>j<i. column_mean (df rep) i < column_mean (df rep) j)"
    by blast
  with wf_MANIPULATION_TYPES ne demo_listdir demo_originals_nonempty demo_no_raise show ?thesis
    unfolding list_all_iff by blast
qed

text \<open>
  C3. On the second disk the manipulated file is present and \<^verbatim>\<open>Image.open\<close> accepts
  it, but its data are truncated: the conversion to grayscale raises \<^verbatim>\<open>OSError\<close>
  outside the \<^verbatim>\<open>try\<close> of \<^verbatim>\<open>detect_matches\<close>, and the exception ends the run of
  the driver. The cell is not scored 0.
\<close>

theorem truncated_file_aborts_run:
  "path_exists cut_world ''manipulated/cata.jpg''
   \<and> image_open cut_world ''manipulated/cata.jpg'' = Inr img_cut
   \<and> convert_L cut_world img_cut = Inl OSError
   \<and> detect_matches cut_world ''originals/cat.jpg'' ''manipulated/cata.jpg'' ''phash'' = Inl OSError
   \<and> main_table MANIPULATION_TYPES cut_world ''originals'' ''manipulated'' = Inl OSError
   \<and> main MANIPULATION_TYPES cut_world ''originals'' ''manipulated'' = Inl OSError"
  by code_simp

end
